theory Spec2Isabelle
  imports
    Main
    "HOL-Library.Word"
    "HOL-Library.Char_ord"
    "HOL-Library.List_Lexorder"
    "HOL-Library.Product_Lexorder"
begin

section \<open>Identifiers, mappings and filters\<close>

text \<open>
  \<^verbatim>\<open>influxdb.ID\<close> is an unsigned 64-bit integer; the value zero is the unset
  (invalid) identifier.
\<close>

type_synonym ID = "64 word"

text \<open>
  The mapping entity. The struct is declared in the \<^verbatim>\<open>influxdb\<close> package; its
  fields are the ones the literals of \<^verbatim>\<open>testing/dbrp_mapping_v2.go\<close> and the
  selectors of \<^verbatim>\<open>dbrp/service_auth.go\<close> use.
\<close>

record DBRPMapping =
  ID :: ID
  Database :: string
  RetentionPolicy :: string
  Default :: bool
  OrganizationID :: ID
  BucketID :: ID

text \<open>
  The filter: every field is a pointer, \<open>None\<close> is the nil pointer. The fields are
  \<^verbatim>\<open>ID\<close>, \<^verbatim>\<open>OrgID\<close>, \<^verbatim>\<open>BucketID\<close>, \<^verbatim>\<open>Database\<close>,
  \<^verbatim>\<open>RetentionPolicy\<close> and \<^verbatim>\<open>Default\<close>; those that share a name with a field
  of the mapping carry the prefix \<open>Filter\<close> here.
\<close>

record DBRPMappingFilter =
  FilterID :: "ID option"
  OrgID :: "ID option"
  FilterBucketID :: "ID option"
  FilterDatabase :: "string option"
  FilterRetentionPolicy :: "string option"
  FilterDefault :: "bool option"

text \<open>The zero value of the filter, \<^verbatim>\<open>DBRPMappingFilterV2{}\<close>: no field is set.\<close>

definition no_filter :: DBRPMappingFilter where
  "no_filter =
     \<lparr>FilterID = None, OrgID = None, FilterBucketID = None, FilterDatabase = None,
      FilterRetentionPolicy = None, FilterDefault = None\<rparr>"

section \<open>Errors of the dbrp package\<close>

text \<open>
  The error codes the package uses (\<^verbatim>\<open>influxdb.EInvalid\<close>, ...), and Go's
  \<^verbatim>\<open>error\<close> values: an \<^verbatim>\<open>*influxdb.Error\<close> with its \<^verbatim>\<open>Code\<close>,
  \<^verbatim>\<open>Msg\<close> and wrapped \<^verbatim>\<open>Err\<close> (\<open>None\<close> is the nil error), the value of
  \<^verbatim>\<open>fmt.Errorf\<close> on a constant format, and the value of \<^verbatim>\<open>errors.Wrap\<close>.
\<close>

datatype Code = EInvalid | ENotFound | EConflict | EInternal | EUnauthorized

datatype error =
    Error (Code: Code) (Msg: string) (Err: "error option")
  | Errorf string
  | Wrap error string

definition ErrInvalidDBRPID :: error where
  "ErrInvalidDBRPID = Error EInvalid ''DBRPorization ID is invalid'' None"

definition ErrDBRPNotFound :: error where
  "ErrDBRPNotFound = Error ENotFound ''unable to find DBRP'' None"

definition NotUniqueIDError :: error where
  "NotUniqueIDError = Error EConflict ''ID already exists'' None"

definition ErrFailureGeneratingID :: error where
  "ErrFailureGeneratingID = Error EInternal ''unable to generate valid id'' None"

definition ErrUnauthorized :: "error option \<Rightarrow> error" where
  "ErrUnauthorized err = Error EUnauthorized ''unauthorized'' err"

definition ErrInvalidDBRPError :: "error option \<Rightarrow> error" where
  "ErrInvalidDBRPError err = Error EInvalid ''DBRP provided is invalid'' err"

definition ErrInternalServiceError :: "error option \<Rightarrow> error" where
  "ErrInternalServiceError err = Error EInternal [] err"

text \<open>
  \<^verbatim>\<open>UnexpectedDBRPIndexError\<close> formats its argument with \<^verbatim>\<open>%v\<close>. How an error
  prints is decided by \<^verbatim>\<open>Error()\<close> methods outside this package, so the printer
  \<open>sprint_v\<close> is a parameter.
\<close>

definition UnexpectedDBRPIndexError :: "(error option \<Rightarrow> string) \<Rightarrow> error option \<Rightarrow> error" where
  "UnexpectedDBRPIndexError sprint_v err =
     Error EInternal (''unexpected error retrieving DBRP index; Err: '' @ sprint_v err) None"

definition ErrDBRPAlreadyExist :: "error option \<Rightarrow> error" where
  "ErrDBRPAlreadyExist err =
     Error EConflict []
       (Some (Errorf ''dbrp already exist for this particular ID. If you are trying an update use the right function .Update''))"

definition ErrInternalDBRPError :: "error option \<Rightarrow> error" where
  "ErrInternalDBRPError err = Error EInvalid [] err"

section \<open>The authorization decorator\<close>

text \<open>
  A call either returns or panics; the only panic of \<^verbatim>\<open>service_auth.go\<close> is the
  dereference of a nil pointer.
\<close>

datatype panic = NilPointerDereference

datatype 'a outcome = Panic panic | Return 'a

datatype ResourceType = DBRPTResourceype

text \<open>
  The functions of the \<^verbatim>\<open>authorizer\<close> package the decorator calls. Each returns
  \<^verbatim>\<open>(Authorizer, Permission, error)\<close>; the decorator discards the first two, so
  only the error is kept (\<open>None\<close>: the check succeeds). They read the caller's context
  and nothing else.
\<close>

record 'ctx authorizer =
  AuthorizeRead :: "'ctx \<Rightarrow> ResourceType \<Rightarrow> ID \<Rightarrow> ID \<Rightarrow> error option"
  AuthorizeOrgReadResource :: "'ctx \<Rightarrow> ResourceType \<Rightarrow> ID \<Rightarrow> error option"
  AuthorizeCreate :: "'ctx \<Rightarrow> ResourceType \<Rightarrow> ID \<Rightarrow> error option"
  AuthorizeWrite :: "'ctx \<Rightarrow> ResourceType \<Rightarrow> ID \<Rightarrow> ID \<Rightarrow> error option"

text \<open>
  The embedded interface \<^verbatim>\<open>influxdb.DBRPMappingServiceV2\<close>: any implementation,
  over any state \<open>'s\<close>. The state stands for everything an implementation can read or
  write (its store, and the objects its pointer arguments refer to), so that a call
  which is not made leaves the state as it was. A \<^verbatim>\<open>*DBRPMapping\<close> is an option
  (\<open>None\<close>: nil), and the variadic \<^verbatim>\<open>opts\<close> are a list.
\<close>

record ('ctx, 'opts, 's) DBRPMappingServiceV2 =
  FindByID :: "'ctx \<Rightarrow> ID \<Rightarrow> ID \<Rightarrow> 's \<Rightarrow> (DBRPMapping option \<times> error option) outcome \<times> 's"
  FindMany :: "'ctx \<Rightarrow> DBRPMappingFilter \<Rightarrow> 'opts list \<Rightarrow> 's
                 \<Rightarrow> (DBRPMapping list \<times> int \<times> error option) outcome \<times> 's"
  Create :: "'ctx \<Rightarrow> DBRPMapping option \<Rightarrow> 's \<Rightarrow> error option outcome \<times> 's"
  Update :: "'ctx \<Rightarrow> DBRPMapping option \<Rightarrow> 's \<Rightarrow> error option outcome \<times> 's"
  Delete :: "'ctx \<Rightarrow> ID \<Rightarrow> ID \<Rightarrow> 's \<Rightarrow> error option outcome \<times> 's"

text \<open>
  \<^verbatim>\<open>DBRPMappingAuthorizedService.FindByID\<close>, \<^verbatim>\<open>FindMany\<close> and \<^verbatim>\<open>Create\<close>
  (the methods of the decorator carry the prefix \<open>Authorized_\<close>, the fields of the
  record above being the methods of the embedded service).
  \<^verbatim>\<open>FindMany\<close> evaluates \<^verbatim>\<open>*filter.OrgID\<close> and \<^verbatim>\<open>Create\<close> evaluates
  \<^verbatim>\<open>t.OrganizationID\<close> as an argument of the check, before the check is called.
\<close>

definition Authorized_FindByID ::
  "'ctx authorizer \<Rightarrow> ('ctx, 'opts, 's) DBRPMappingServiceV2 \<Rightarrow> 'ctx \<Rightarrow> ID \<Rightarrow> ID \<Rightarrow> 's
     \<Rightarrow> (DBRPMapping option \<times> error option) outcome \<times> 's" where
  "Authorized_FindByID az svc ctx orgID id' s =
     (case AuthorizeRead az ctx DBRPTResourceype id' orgID of
        Some err \<Rightarrow> (Return (None, Some (ErrUnauthorized (Some err))), s)
      | None \<Rightarrow> FindByID svc ctx orgID id' s)"

definition Authorized_FindMany ::
  "'ctx authorizer \<Rightarrow> ('ctx, 'opts, 's) DBRPMappingServiceV2 \<Rightarrow> 'ctx \<Rightarrow> DBRPMappingFilter
     \<Rightarrow> 'opts list \<Rightarrow> 's \<Rightarrow> (DBRPMapping list \<times> int \<times> error option) outcome \<times> 's" where
  "Authorized_FindMany az svc ctx fltr opts s =
     (case OrgID fltr of
        None \<Rightarrow> (Panic NilPointerDereference, s)
      | Some org \<Rightarrow>
          (case AuthorizeOrgReadResource az ctx DBRPTResourceype org of
             Some err \<Rightarrow> (Return ([], 0, Some (ErrUnauthorized (Some err))), s)
           | None \<Rightarrow> FindMany svc ctx fltr opts s))"

definition Authorized_Create ::
  "'ctx authorizer \<Rightarrow> ('ctx, 'opts, 's) DBRPMappingServiceV2 \<Rightarrow> 'ctx \<Rightarrow> DBRPMapping option
     \<Rightarrow> 's \<Rightarrow> error option outcome \<times> 's" where
  "Authorized_Create az svc ctx t s =
     (case t of
        None \<Rightarrow> (Panic NilPointerDereference, s)
      | Some m \<Rightarrow>
          (case AuthorizeCreate az ctx DBRPTResourceype (OrganizationID m) of
             Some err \<Rightarrow> (Return (Some (ErrUnauthorized (Some err))), s)
           | None \<Rightarrow> Create svc ctx t s))"

text \<open>
  \<^verbatim>\<open>DBRPMappingAuthorizedService.Update\<close> and \<^verbatim>\<open>Delete\<close>. After the check they
  call \<^verbatim>\<open>svc.Update(ctx, u)\<close> and \<^verbatim>\<open>svc.Delete(ctx, orgID, id)\<close>: \<^verbatim>\<open>svc\<close> is the
  decorator, whose own method shadows the one promoted from the embedded interface, so
  the call is the method calling itself with the same arguments. The recursion has no
  bound, so the functions are partial: \<open>None\<close> is the call that never returns (the Go
  runtime ends the process once the stack is exhausted).
\<close>

partial_function (option) Authorized_Update ::
  "'ctx authorizer \<Rightarrow> ('ctx, 'opts, 's) DBRPMappingServiceV2 \<Rightarrow> 'ctx \<Rightarrow> DBRPMapping option
     \<Rightarrow> 's \<Rightarrow> (error option outcome \<times> 's) option" where
  "Authorized_Update az svc ctx u s =
     (case u of
        None \<Rightarrow> Some (Panic NilPointerDereference, s)
      | Some m \<Rightarrow>
          (case AuthorizeWrite az ctx DBRPTResourceype (ID m) (OrganizationID m) of
             Some err \<Rightarrow> Some (Return (Some (ErrUnauthorized (Some err))), s)
           | None \<Rightarrow> Authorized_Update az svc ctx u s))"

partial_function (option) Authorized_Delete ::
  "'ctx authorizer \<Rightarrow> ('ctx, 'opts, 's) DBRPMappingServiceV2 \<Rightarrow> 'ctx \<Rightarrow> ID \<Rightarrow> ID
     \<Rightarrow> 's \<Rightarrow> (error option outcome \<times> 's) option" where
  "Authorized_Delete az svc ctx orgID id' s =
     (case AuthorizeWrite az ctx DBRPTResourceype id' orgID of
        Some err \<Rightarrow> Some (Return (Some (ErrUnauthorized (Some err))), s)
      | None \<Rightarrow> Authorized_Delete az svc ctx orgID id' s)"

section \<open>The mapping store\<close>

text \<open>
  The service the conformance tests of \<^verbatim>\<open>testing/dbrp_mapping_v2.go\<close> exercise
  (\<^verbatim>\<open>dbrp.NewService\<close>) and the store under it are not among the sources; they are
  modelled from sections 4.1 and 4.2 of the specification. The transactions of the
  key-value store are taken to commit: the specification reports a failed transaction as
  an internal error and rolls it back, which leaves nothing to observe in the store.
\<close>

text \<open>
  Modelled from the spec: the key of a secondary index entry (the index of the Mapping
  Store is missing from the sources), \<open>(organization_id, database, retention_policy, id)\<close>.
  Keys are compared field by field from the left, identifiers as unsigned numbers and
  names as byte strings.
\<close>

type_synonym index_key = "ID \<times> string \<times> string \<times> ID"

text \<open>
  Modelled from the spec: the index key of a mapping (the encoding of keys is missing from
  the sources), its \<open>organization_id\<close>, \<open>database\<close>, \<open>retention_policy\<close> and
  \<open>id\<close>, in this order.
\<close>

definition index_key :: "DBRPMapping \<Rightarrow> index_key" where
  "index_key m = (OrganizationID m, Database m, RetentionPolicy m, ID m)"

text \<open>
  Modelled from the spec: the state of the Mapping Store (missing from the sources), the
  primary records keyed by \<open>id\<close> and the secondary index, kept in ascending key order.
\<close>

record MappingStore =
  primary :: "ID \<rightharpoonup> DBRPMapping"
  index :: "index_key list"

text \<open>
  Modelled from the spec: the Mapping Store before any mapping is created (missing from
  the sources).
\<close>

definition empty_store :: MappingStore where
  "empty_store = \<lparr>primary = Map.empty, index = []\<rparr>"

text \<open>
  Modelled from the spec: \<open>put(mapping)\<close> of the Mapping Store (missing from the
  sources), which "upserts the primary record keyed by id, and (re)writes secondary index
  entries", both in one transaction.
\<close>

definition put :: "DBRPMapping \<Rightarrow> MappingStore \<Rightarrow> MappingStore" where
  "put m s =
     \<lparr>primary = (primary s)(ID m \<mapsto> m),
      index = insort (index_key m)
                (case primary s (ID m) of
                   None \<Rightarrow> index s
                 | Some old \<Rightarrow> remove1 (index_key old) (index s))\<rparr>"

text \<open>
  Modelled from the spec: \<open>get(id)\<close> of the Mapping Store (missing from the sources);
  \<open>None\<close> is its not-found.
\<close>

definition get :: "ID \<Rightarrow> MappingStore \<Rightarrow> DBRPMapping option" where
  "get i s = primary s i"

text \<open>
  Modelled from the spec: \<open>delete(id)\<close> of the Mapping Store (missing from the
  sources), which "removes the primary record and all of its index entries atomically"
  and "reports whether the primary record existed".
\<close>

definition delete :: "ID \<Rightarrow> MappingStore \<Rightarrow> bool \<times> MappingStore" where
  "delete i s =
     (case primary s i of
        None \<Rightarrow> (False, s)
      | Some old \<Rightarrow>
          (True, \<lparr>primary = (primary s)(i := None), index = remove1 (index_key old) (index s)\<rparr>))"

text \<open>
  Modelled from the spec: the index prefix scopes of \<open>scan\<close> (missing from the
  sources): the whole table, an organization, or an organization narrowed by a database.
\<close>

datatype scope = AllMappings | ByOrg ID | ByOrgDatabase ID string

text \<open>
  Modelled from the spec: whether an index key lies under the prefix of a scope (missing
  from the sources).
\<close>

fun in_scope :: "scope \<Rightarrow> index_key \<Rightarrow> bool" where
  "in_scope AllMappings k = True"
| "in_scope (ByOrg org) (o', d', r', i') = (o' = org)"
| "in_scope (ByOrgDatabase org db) (o', d', r', i') = (o' = org \<and> d' = db)"

text \<open>
  Modelled from the spec: \<open>scan(prefix)\<close> of the Mapping Store (missing from the
  sources), which "produces mappings in ascending key order for a given index prefix scope
  (organization, optionally narrowed by database)" and is a full-table scan "when no
  organization scope is given". The scan walks the index and reads the primary record each
  entry points to.
\<close>

definition scan :: "scope \<Rightarrow> MappingStore \<Rightarrow> DBRPMapping list" where
  "scan sc s =
     List.map_filter (\<lambda>(o', d', r', i'). primary s i') (filter (in_scope sc) (index s))"

section \<open>The mapping service\<close>

text \<open>
  Modelled from the spec: the collaborators of the Mapping Service (missing from the
  sources): Bucket Lookup \<open>exists(organization_id, bucket_id)\<close>, the ID Generator
  \<open>next()\<close> over its own state \<open>'g\<close>, and the bound on the attempts to generate an
  id.
\<close>

record 'g collaborators =
  bucket_exists :: "ID \<Rightarrow> ID \<Rightarrow> bool"
  next_id :: "'g \<Rightarrow> ID \<times> 'g"
  max_attempts :: nat

text \<open>
  Modelled from the spec: the id generation of \<open>Create\<close> (missing from the sources),
  "retrying ID generation up to a bounded number of attempts if a collision is detected
  via a failed existence pre-check, reporting a generation-exhausted error if all attempts
  collide". The error is \<^verbatim>\<open>ErrFailureGeneratingID\<close> of the sources.
\<close>

fun generate_id ::
  "('g \<Rightarrow> ID \<times> 'g) \<Rightarrow> MappingStore \<Rightarrow> nat \<Rightarrow> 'g \<Rightarrow> (error + ID) \<times> 'g" where
  "generate_id nxt s 0 g = (Inl ErrFailureGeneratingID, g)"
| "generate_id nxt s (Suc n) g =
     (case nxt g of
        (c, g') \<Rightarrow> if get c s = None then (Inr c, g') else generate_id nxt s n g')"

text \<open>
  Modelled from the spec: \<open>Create(mapping)\<close> of the Mapping Service (missing from the
  sources). A record stored under the mapping's id is answered first, with the conflict
  error: "a duplicate id is always rejected, and the caller is told to use the update path
  instead", whatever else the mapping holds. Then, as section 4.2 lists them: the required
  fields (a non-empty database and retention policy); an id from the generator when the
  mapping's id is zero; the target bucket; "persists via Mapping Store put". The result is
  the error, or the mapping as stored (the Go method writes the generated id through its
  pointer argument). An invalid mapping and a missing bucket are reported with
  \<^verbatim>\<open>ErrInvalidDBRPError\<close>, a duplicate with \<^verbatim>\<open>ErrDBRPAlreadyExist(nil)\<close>, as the
  test of the sources expects.
\<close>

definition Service_Create ::
  "'g collaborators \<Rightarrow> DBRPMapping \<Rightarrow> 'g \<Rightarrow> MappingStore
     \<Rightarrow> (error + DBRPMapping) \<times> 'g \<times> MappingStore" where
  "Service_Create deps m g s =
     (if get (ID m) s \<noteq> None then (Inl (ErrDBRPAlreadyExist None), g, s)
      else if Database m = [] \<or> RetentionPolicy m = []
      then (Inl (ErrInvalidDBRPError None), g, s)
      else
        (case (if ID m = 0 then generate_id (next_id deps) s (max_attempts deps) g
               else (Inr (ID m), g)) of
           (Inl e, g') \<Rightarrow> (Inl e, g', s)
         | (Inr i, g') \<Rightarrow>
             if \<not> bucket_exists deps (OrganizationID m) (BucketID m)
             then (Inl (ErrInvalidDBRPError None), g', s)
             else (Inr (m\<lparr>ID := i\<rparr>), g', put (m\<lparr>ID := i\<rparr>) s)))"

text \<open>
  Modelled from the spec: \<open>FindByID(id)\<close> of the Mapping Service (missing from the
  sources), which "delegates to Store get; translates store-level not-found into the typed
  NotFound error" (\<^verbatim>\<open>ErrDBRPNotFound\<close> of the sources). Reading returns the store
  as it was.
\<close>

definition Service_FindByID ::
  "ID \<Rightarrow> MappingStore \<Rightarrow> (error + DBRPMapping) \<times> MappingStore" where
  "Service_FindByID i s =
     (case get i s of None \<Rightarrow> (Inl ErrDBRPNotFound, s) | Some m \<Rightarrow> (Inr m, s))"

text \<open>
  Modelled from the spec: the scope \<open>FindMany\<close> scans (missing from the sources), "the
  narrowest available index scope from the filter (organization, then database)".
\<close>

definition choose_scope :: "DBRPMappingFilter \<Rightarrow> scope" where
  "choose_scope f =
     (case OrgID f of
        None \<Rightarrow> AllMappings
      | Some org \<Rightarrow>
          (case FilterDatabase f of None \<Rightarrow> ByOrg org | Some db \<Rightarrow> ByOrgDatabase org db))"

text \<open>
  Modelled from the spec: the predicate of one filter field (missing from the sources):
  an unset field does not constrain, a set field must equal the mapping's.
\<close>

fun field_matches :: "'a option \<Rightarrow> 'a \<Rightarrow> bool" where
  "field_matches None v = True"
| "field_matches (Some w) v = (v = w)"

text \<open>
  Modelled from the spec: the "remaining filter predicates" of \<open>FindMany\<close> (missing
  from the sources), the conjunction of the predicates of the fields the chosen scope does
  not enforce already.
\<close>

definition remaining_predicates :: "scope \<Rightarrow> DBRPMappingFilter \<Rightarrow> DBRPMapping \<Rightarrow> bool" where
  "remaining_predicates sc f m =
     (field_matches (FilterID f) (ID m)
      \<and> field_matches (FilterBucketID f) (BucketID m)
      \<and> field_matches (FilterRetentionPolicy f) (RetentionPolicy m)
      \<and> field_matches (FilterDefault f) (Default m)
      \<and> (case sc of
           AllMappings \<Rightarrow> field_matches (FilterDatabase f) (Database m)
         | ByOrg org \<Rightarrow> True
         | ByOrgDatabase org db \<Rightarrow> True))"

text \<open>
  Modelled from the spec: the pagination of \<open>FindMany\<close> (missing from the sources),
  an offset and a limit, applied "if pagination options are given".
\<close>

fun paginate :: "(nat \<times> nat) option \<Rightarrow> 'a list \<Rightarrow> 'a list" where
  "paginate None xs = xs"
| "paginate (Some (offset, limit)) xs = take limit (drop offset xs)"

text \<open>
  Modelled from the spec: \<open>FindMany(filter, pagination)\<close> of the Mapping Service
  (missing from the sources): scan the chosen scope, keep the mappings that satisfy the
  remaining predicates, return "the filtered sequence plus its total count
  (pre-pagination)", offset and limit applied afterwards. "An empty result set is success."
  Results come in index order. Reading returns the store as it was.
\<close>

definition Service_FindMany ::
  "DBRPMappingFilter \<Rightarrow> (nat \<times> nat) option \<Rightarrow> MappingStore
     \<Rightarrow> (error + DBRPMapping list \<times> int) \<times> MappingStore" where
  "Service_FindMany f page s =
     (let found = filter (remaining_predicates (choose_scope f) f) (scan (choose_scope f) s)
      in (Inr (paginate page found, int (length found)), s))"

text \<open>
  Modelled from the spec: \<open>Delete(id)\<close> of the Mapping Service (missing from the
  sources), which "fails with NotFound if no record exists; otherwise removes via Store
  delete". The error is \<^verbatim>\<open>ErrDBRPNotFound\<close> of the sources. (Section 9 of the
  specification records that the tests were observed to accept the delete of an absent id,
  and keeps the failure; the case "delete non-existing dbrpMapping" of
  \<^verbatim>\<open>DeleteDBRPMappingV2\<close> names no wanted error.)
\<close>

definition Service_Delete :: "ID \<Rightarrow> MappingStore \<Rightarrow> error option \<times> MappingStore" where
  "Service_Delete i s =
     (case get i s of
        None \<Rightarrow> (Some ErrDBRPNotFound, s)
      | Some m \<Rightarrow> (None, snd (delete i s)))"

text \<open>
  \<^verbatim>\<open>DBRPMappingFieldsV2.Populate\<close> of the sources, over the service above: it creates
  the mappings in order and stops at the first error, which it wraps.
\<close>

fun Populate ::
  "'g collaborators \<Rightarrow> DBRPMapping list \<Rightarrow> 'g \<Rightarrow> MappingStore
     \<Rightarrow> error option \<times> 'g \<times> MappingStore" where
  "Populate deps [] g s = (None, g, s)"
| "Populate deps (m # ms) g s =
     (case Service_Create deps m g s of
        (Inl err, g', s') \<Rightarrow> (Some (Wrap err ''failed to populate dbrp mappings''), g', s')
      | (Inr m', g', s') \<Rightarrow> Populate deps ms g' s')"

text \<open>
  The filter as the specification words it: a mapping satisfies a filter when it satisfies
  the predicate of every field that is set.
\<close>

definition filter_matches :: "DBRPMappingFilter \<Rightarrow> DBRPMapping \<Rightarrow> bool" where
  "filter_matches f m =
     (field_matches (FilterID f) (ID m)
      \<and> field_matches (OrgID f) (OrganizationID m)
      \<and> field_matches (FilterBucketID f) (BucketID m)
      \<and> field_matches (FilterDatabase f) (Database m)
      \<and> field_matches (FilterRetentionPolicy f) (RetentionPolicy m)
      \<and> field_matches (FilterDefault f) (Default m))"

text \<open>
  The states the store can be in: the index is in ascending order without repetition, it
  holds exactly the keys of the primary records, and every primary record is stored under
  its own id.
\<close>

definition store_inv :: "MappingStore \<Rightarrow> bool" where
  "store_inv s =
     (sorted (index s) \<and> distinct (index s)
      \<and> set (index s) = index_key ` ran (primary s)
      \<and> (\<forall>i m. primary s i = Some m \<longrightarrow> ID m = i))"

section \<open>Fixtures\<close>

text \<open>
  Concrete inputs on which the theorems below are evaluated: an authorizer that lets every
  caller through, one that refuses every caller, and a wrapped service that observes the
  calls made to it (its state counts them).
\<close>

definition allow_all :: "unit authorizer" where
  "allow_all =
     \<lparr>AuthorizeRead = (\<lambda>_ _ _ _. None),
      AuthorizeOrgReadResource = (\<lambda>_ _ _. None),
      AuthorizeCreate = (\<lambda>_ _ _. None),
      AuthorizeWrite = (\<lambda>_ _ _ _. None)\<rparr>"

definition denied :: error where
  "denied = Error EUnauthorized ''access denied'' None"

definition deny_all :: "unit authorizer" where
  "deny_all =
     \<lparr>AuthorizeRead = (\<lambda>_ _ _ _. Some denied),
      AuthorizeOrgReadResource = (\<lambda>_ _ _. Some denied),
      AuthorizeCreate = (\<lambda>_ _ _. Some denied),
      AuthorizeWrite = (\<lambda>_ _ _ _. Some denied)\<rparr>"

definition spy_service :: "(unit, unit, nat) DBRPMappingServiceV2" where
  "spy_service =
     \<lparr>FindByID = (\<lambda>_ _ _ n. (Return (None, Some ErrDBRPNotFound), Suc n)),
      FindMany = (\<lambda>_ _ _ n. (Return ([], 0, None), Suc n)),
      Create = (\<lambda>_ _ n. (Return None, Suc n)),
      Update = (\<lambda>_ _ n. (Return None, Suc n)),
      Delete = (\<lambda>_ _ _ n. (Return None, Suc n))\<rparr>"

definition mapping100 :: DBRPMapping where
  "mapping100 =
     \<lparr>ID = 100, Database = ''database1'', RetentionPolicy = ''retention_policy1'',
      Default = False, OrganizationID = 1, BucketID = 11\<rparr>"

definition mapping200 :: DBRPMapping where
  "mapping200 =
     \<lparr>ID = 200, Database = ''database2'', RetentionPolicy = ''retention_policy2'',
      Default = True, OrganizationID = 2, BucketID = 22\<rparr>"

text \<open>
  Collaborators as the tests set them up: every bucket exists, and the generator counts
  upwards from 1000.
\<close>

definition mock_collaborators :: "nat collaborators" where
  "mock_collaborators =
     \<lparr>bucket_exists = (\<lambda>_ _. True),
      next_id = (\<lambda>n. (word_of_nat n + 1000, Suc n)),
      max_attempts = 10\<rparr>"



text \<open>
  The store of the cases of \<^verbatim>\<open>DeleteDBRPMappingV2\<close>, populated with the mappings 100
  and 200 in this order. (The organization and bucket ids of the tests are constants
  declared outside the sources; 1, 2 and 11, 22 stand for them.)
\<close>

definition ordered_mappings_store :: MappingStore where
  "ordered_mappings_store =
     snd (snd (Populate mock_collaborators [mapping100, mapping200] 0 empty_store))"

definition one_mapping_store :: MappingStore where
  "one_mapping_store = snd (snd (Populate mock_collaborators [mapping100] 0 empty_store))"

definition two_mappings_store :: MappingStore where
  "two_mappings_store =
     snd (snd (Populate mock_collaborators [mapping200, mapping100] 0 empty_store))"

text \<open>The mappings and the filter of the test case "mixed" of \<^verbatim>\<open>FindManyDBRPMappingsV2\<close>.\<close>

definition mixed100 :: DBRPMapping where
  "mixed100 =
     \<lparr>ID = 100, Database = ''database1'', RetentionPolicy = ''retention_policyA'',
      Default = True, OrganizationID = 3, BucketID = 10\<rparr>"

definition mixed200 :: DBRPMapping where
  "mixed200 =
     \<lparr>ID = 200, Database = ''database1'', RetentionPolicy = ''retention_policyA'',
      Default = True, OrganizationID = 3, BucketID = 10\<rparr>"

definition mixed300 :: DBRPMapping where
  "mixed300 =
     \<lparr>ID = 300, Database = ''database1'', RetentionPolicy = ''retention_policyA'',
      Default = False, OrganizationID = 2, BucketID = 10\<rparr>"

definition mixed400 :: DBRPMapping where
  "mixed400 =
     \<lparr>ID = 400, Database = ''database2'', RetentionPolicy = ''retention_policyB'',
      Default = True, OrganizationID = 3, BucketID = 11\<rparr>"

definition mixed_store :: MappingStore where
  "mixed_store =
     snd (snd (Populate mock_collaborators [mixed100, mixed200, mixed300, mixed400] 0 empty_store))"

definition mixed_filter :: DBRPMappingFilter where
  "mixed_filter =
     no_filter\<lparr>FilterRetentionPolicy := Some ''retention_policyA'', FilterDefault := Some True,
       OrgID := Some 3\<rparr>"

section \<open>The error constructors\<close>

lemma Code_constructors:
  "Code (ErrUnauthorized e) = EUnauthorized"
  "Code (ErrInvalidDBRPError e) = EInvalid"
  "Code (ErrInternalServiceError e) = EInternal"
  "Code (UnexpectedDBRPIndexError pr e) = EInternal"
  "Code (ErrDBRPAlreadyExist e) = EConflict"
  "Code ErrFailureGeneratingID = EInternal"
  "Code ErrDBRPNotFound = ENotFound"
  by (simp_all add: ErrUnauthorized_def ErrInvalidDBRPError_def ErrInternalServiceError_def
      UnexpectedDBRPIndexError_def ErrDBRPAlreadyExist_def ErrFailureGeneratingID_def
      ErrDBRPNotFound_def)

text \<open>
  C8. Every constructor of the package for an internal fault is to give an error whose
  code is \<open>EInternal\<close>. \<^verbatim>\<open>ErrInternalServiceError\<close> and
  \<^verbatim>\<open>UnexpectedDBRPIndexError\<close> do; \<^verbatim>\<open>ErrInternalDBRPError\<close>, whose name and
  comment say it reports an error of an internal system, gives \<open>EInvalid\<close>.
\<close>

theorem ErrInternalDBRPError_code_is_EInvalid:
  "Code (ErrInternalDBRPError None) = EInvalid
   \<and> Code (ErrInternalDBRPError None) \<noteq> EInternal
   \<and> Code (ErrInternalServiceError None) = EInternal
   \<and> Code (UnexpectedDBRPIndexError pr None) = EInternal"
  by (simp add: ErrInternalDBRPError_def ErrInternalServiceError_def
      UnexpectedDBRPIndexError_def)

text \<open>
  C10. \<^verbatim>\<open>ErrDBRPAlreadyExist\<close> discards its argument: whatever errors it is given
  (nil included), it builds the same conflict error, whose wrapped error is the fixed
  message that points the caller to \<^verbatim>\<open>Update\<close>; the argument is not kept in it.
\<close>

theorem ErrDBRPAlreadyExist_discards_argument:
  "ErrDBRPAlreadyExist e1 = ErrDBRPAlreadyExist e2
   \<and> Code (ErrDBRPAlreadyExist e1) = EConflict
   \<and> Msg (ErrDBRPAlreadyExist e1) = []
   \<and> Err (ErrDBRPAlreadyExist e1) =
       Some (Errorf ''dbrp already exist for this particular ID. If you are trying an update use the right function .Update'')"
  by (simp add: ErrDBRPAlreadyExist_def)

section \<open>The authorization decorator: results\<close>

subsection \<open>What the self-calling methods compute\<close>

lemma Authorized_Update_returns:
  assumes "Authorized_Update az svc ctx u s = Some r"
  shows "case u of
           None \<Rightarrow> r = (Panic NilPointerDereference, s)
         | Some m \<Rightarrow>
             (\<exists>err. AuthorizeWrite az ctx DBRPTResourceype (ID m) (OrganizationID m) = Some err
                \<and> r = (Return (Some (ErrUnauthorized (Some err))), s))"
  by (rule Authorized_Update.raw_induct
        [where P = "\<lambda>az svc ctx u s r.
           (case u of
              None \<Rightarrow> r = (Panic NilPointerDereference, s)
            | Some m \<Rightarrow>
                (\<exists>err. AuthorizeWrite az ctx DBRPTResourceype (ID m) (OrganizationID m) = Some err
                   \<and> r = (Return (Some (ErrUnauthorized (Some err))), s)))",
         OF _ assms])
     (fastforce split: option.splits)

lemma Authorized_Update_allowed:
  assumes "AuthorizeWrite az ctx DBRPTResourceype (ID m) (OrganizationID m) = None"
  shows "Authorized_Update az svc ctx (Some m) s = None"
proof (cases "Authorized_Update az svc ctx (Some m) s")
  case None
  then show ?thesis .
next
  case (Some r)
  from Authorized_Update_returns[OF Some] assms show ?thesis by simp
qed

lemma Authorized_Update_denied:
  assumes "AuthorizeWrite az ctx DBRPTResourceype (ID m) (OrganizationID m) = Some err"
  shows "Authorized_Update az svc ctx (Some m) s =
           Some (Return (Some (ErrUnauthorized (Some err))), s)"
  using assms by (subst Authorized_Update.simps) simp

lemma Authorized_Delete_returns:
  assumes "Authorized_Delete az svc ctx orgID i s = Some r"
  shows "\<exists>err. AuthorizeWrite az ctx DBRPTResourceype i orgID = Some err
           \<and> r = (Return (Some (ErrUnauthorized (Some err))), s)"
  by (rule Authorized_Delete.raw_induct
        [where P = "\<lambda>az svc ctx orgID i s r.
           \<exists>err. AuthorizeWrite az ctx DBRPTResourceype i orgID = Some err
             \<and> r = (Return (Some (ErrUnauthorized (Some err))), s)",
         OF _ assms])
     (fastforce split: option.splits)

lemma Authorized_Delete_allowed:
  assumes "AuthorizeWrite az ctx DBRPTResourceype i orgID = None"
  shows "Authorized_Delete az svc ctx orgID i s = None"
proof (cases "Authorized_Delete az svc ctx orgID i s")
  case None
  then show ?thesis .
next
  case (Some r)
  from Authorized_Delete_returns[OF Some] assms show ?thesis by simp
qed

lemma Authorized_Delete_denied:
  assumes "AuthorizeWrite az ctx DBRPTResourceype i orgID = Some err"
  shows "Authorized_Delete az svc ctx orgID i s =
           Some (Return (Some (ErrUnauthorized (Some err))), s)"
  using assms by (subst Authorized_Delete.simps) simp

text \<open>
  Neither method depends on the wrapped service: the embedded \<^verbatim>\<open>Update\<close> and
  \<^verbatim>\<open>Delete\<close> are never called.
\<close>

lemma Authorized_Update_ignores_service:
  "Authorized_Update az svc ctx u s = Authorized_Update az svc' ctx u s"
proof (cases u)
  case None
  then show ?thesis by (simp add: Authorized_Update.simps)
next
  case (Some m)
  then show ?thesis
    by (cases "AuthorizeWrite az ctx DBRPTResourceype (ID m) (OrganizationID m)")
       (simp_all add: Authorized_Update_allowed Authorized_Update_denied)
qed

lemma Authorized_Delete_ignores_service:
  "Authorized_Delete az svc ctx orgID i s = Authorized_Delete az svc' ctx orgID i s"
  by (cases "AuthorizeWrite az ctx DBRPTResourceype i orgID")
     (simp_all add: Authorized_Delete_allowed Authorized_Delete_denied)

subsection \<open>Delegation after a successful check\<close>

text \<open>
  \<^verbatim>\<open>FindByID\<close>, \<^verbatim>\<open>FindMany\<close> and \<^verbatim>\<open>Create\<close> call the embedded service with
  their own arguments and return what it returns.
\<close>

lemma Authorized_FindByID_delegates:
  "AuthorizeRead az ctx DBRPTResourceype i orgID = None \<Longrightarrow>
     Authorized_FindByID az svc ctx orgID i s = FindByID svc ctx orgID i s"
  by (simp add: Authorized_FindByID_def)

lemma Authorized_FindMany_delegates:
  "OrgID fltr = Some org \<Longrightarrow> AuthorizeOrgReadResource az ctx DBRPTResourceype org = None \<Longrightarrow>
     Authorized_FindMany az svc ctx fltr opts s = FindMany svc ctx fltr opts s"
  by (simp add: Authorized_FindMany_def)

lemma Authorized_Create_delegates:
  "AuthorizeCreate az ctx DBRPTResourceype (OrganizationID m) = None \<Longrightarrow>
     Authorized_Create az svc ctx (Some m) s = Create svc ctx (Some m) s"
  by (simp add: Authorized_Create_def)

text \<open>
  C1. After a successful check every operation of the decorator is to call the same
  operation of the wrapped service and return its result. For \<^verbatim>\<open>Update\<close> and
  \<^verbatim>\<open>Delete\<close> it does not: with an authorizer that lets the caller through and a
  wrapped service that would return without error (and count the call), the decorated
  call never returns, where the wrapped call returns nil and counts one call.
\<close>

theorem Authorized_Update_Delete_do_not_delegate:
  "Authorized_Update allow_all spy_service () (Some mapping100) 0 = None
   \<and> Update spy_service () (Some mapping100) 0 = (Return None, 1)
   \<and> Authorized_Delete allow_all spy_service () 1 100 0 = None
   \<and> Delete spy_service () 1 100 0 = (Return None, 1)"
  by (simp add: Authorized_Update_allowed Authorized_Delete_allowed allow_all_def
      spy_service_def)

subsection \<open>A denied check\<close>

text \<open>
  C2. In every operation of the decorator, for every caller context and every wrapped
  service, a denied check makes the call return the \<open>EUnauthorized\<close> error that wraps the
  check's error, with the state of the wrapped service as it was: the wrapped service is
  not called, so its store is neither read nor written. (In \<^verbatim>\<open>FindMany\<close> the check
  is made on the organization the filter points to.)
\<close>

theorem denied_check_returns_unauthorized:
  "(AuthorizeRead az ctx DBRPTResourceype i orgID = Some err \<longrightarrow>
      Authorized_FindByID az svc ctx orgID i s =
        (Return (None, Some (ErrUnauthorized (Some err))), s))
   \<and> (OrgID fltr = Some org \<and> AuthorizeOrgReadResource az ctx DBRPTResourceype org = Some err \<longrightarrow>
      Authorized_FindMany az svc ctx fltr opts s =
        (Return ([], 0, Some (ErrUnauthorized (Some err))), s))
   \<and> (AuthorizeCreate az ctx DBRPTResourceype (OrganizationID m) = Some err \<longrightarrow>
      Authorized_Create az svc ctx (Some m) s =
        (Return (Some (ErrUnauthorized (Some err))), s))
   \<and> (AuthorizeWrite az ctx DBRPTResourceype (ID m) (OrganizationID m) = Some err \<longrightarrow>
      Authorized_Update az svc ctx (Some m) s =
        Some (Return (Some (ErrUnauthorized (Some err))), s))
   \<and> (AuthorizeWrite az ctx DBRPTResourceype i orgID = Some err \<longrightarrow>
      Authorized_Delete az svc ctx orgID i s =
        Some (Return (Some (ErrUnauthorized (Some err))), s))
   \<and> Code (ErrUnauthorized (Some err)) = EUnauthorized
   \<and> Err (ErrUnauthorized (Some err)) = Some err"
  by (simp add: Authorized_FindByID_def Authorized_FindMany_def Authorized_Create_def
      Authorized_Update_denied Authorized_Delete_denied ErrUnauthorized_def)

theorem denied_check_returns_unauthorized_witness:
  "Authorized_FindByID deny_all spy_service () 1 100 0 =
     (Return (None, Some (ErrUnauthorized (Some denied))), 0)
   \<and> Authorized_FindMany deny_all spy_service () (no_filter\<lparr>OrgID := Some 1\<rparr>) [] 0 =
     (Return ([], 0, Some (ErrUnauthorized (Some denied))), 0)
   \<and> Authorized_Create deny_all spy_service () (Some mapping100) 0 =
     (Return (Some (ErrUnauthorized (Some denied))), 0)
   \<and> Authorized_Update deny_all spy_service () (Some mapping100) 0 =
     Some (Return (Some (ErrUnauthorized (Some denied))), 0)
   \<and> Authorized_Delete deny_all spy_service () 1 100 0 =
     Some (Return (Some (ErrUnauthorized (Some denied))), 0)
   \<and> FindByID spy_service () 1 100 0 = (Return (None, Some ErrDBRPNotFound), 1)"
  using denied_check_returns_unauthorized
    [of deny_all "()" 100 1 denied spy_service 0 "no_filter\<lparr>OrgID := Some 1\<rparr>" 1 "[]" mapping100]
  by (simp add: deny_all_def no_filter_def mapping100_def spy_service_def)

subsection \<open>A filter without an organization\<close>

text \<open>
  C9. The decorated \<^verbatim>\<open>FindMany\<close> dereferences the filter's \<^verbatim>\<open>OrgID\<close> before the
  check is called: on a filter whose \<^verbatim>\<open>OrgID\<close> is nil the call panics, whatever the
  authorizer and the wrapped service are, and returns neither a result nor an error.
\<close>

theorem Authorized_FindMany_nil_OrgID_panics:
  "OrgID fltr = None \<Longrightarrow>
     Authorized_FindMany az svc ctx fltr opts s = (Panic NilPointerDereference, s)"
  by (simp add: Authorized_FindMany_def)

theorem Authorized_FindMany_nil_OrgID_panics_witness:
  "OrgID no_filter = None
   \<and> Authorized_FindMany allow_all spy_service () no_filter [] 0 = (Panic NilPointerDereference, 0)
   \<and> Authorized_FindMany deny_all spy_service () no_filter [] 0 = (Panic NilPointerDereference, 0)"
proof -
  have h: "OrgID no_filter = None" by (simp add: no_filter_def)
  show ?thesis
    using h Authorized_FindMany_nil_OrgID_panics[OF h, of allow_all spy_service "()" "[]" 0]
      Authorized_FindMany_nil_OrgID_panics[OF h, of deny_all spy_service "()" "[]" 0]
    by simp
qed

section \<open>The mapping store: its states\<close>

text \<open>
  The empty store is well formed, and \<open>put\<close> and \<open>delete\<close>, the only writes, keep the
  store well formed: every state the service reaches satisfies \<open>store_inv\<close>.
\<close>

lemma store_inv_empty_store: "store_inv empty_store"
  by (simp add: store_inv_def empty_store_def)

lemma index_key_ID: "index_key m = index_key m' \<Longrightarrow> ID m = ID m'"
  by (simp add: index_key_def)

lemma stored_under_own_id:
  "store_inv s \<Longrightarrow> primary s i = Some m \<Longrightarrow> ID m = i"
  by (simp add: store_inv_def)

lemma ran_stored:
  "store_inv s \<Longrightarrow> m \<in> ran (primary s) \<longleftrightarrow> primary s (ID m) = Some m"
  by (auto simp: ran_def store_inv_def)

lemma ran_remove_stored:
  assumes "store_inv s" "primary s i = Some old"
  shows "ran ((primary s)(i := None)) = ran (primary s) - {old}"
proof -
  have "ID old = i" using assms by (rule stored_under_own_id)
  show ?thesis
  proof (rule set_eqI)
    fix m
    show "m \<in> ran ((primary s)(i := None)) \<longleftrightarrow> m \<in> ran (primary s) - {old}"
    proof
      assume "m \<in> ran ((primary s)(i := None))"
      then obtain j where j: "j \<noteq> i" "primary s j = Some m"
        by (auto simp: ran_def split: if_splits)
      then have "ID m = j" using assms(1) by (simp add: stored_under_own_id)
      with j \<open>ID old = i\<close> have "m \<noteq> old" by auto
      with j show "m \<in> ran (primary s) - {old}" by (auto simp: ran_def)
    next
      assume m: "m \<in> ran (primary s) - {old}"
      then obtain j where j: "primary s j = Some m" by (auto simp: ran_def)
      with m assms(2) have "j \<noteq> i" by auto
      with j show "m \<in> ran ((primary s)(i := None))" by (auto simp: ran_def)
    qed
  qed
qed

lemma ran_put: "ran (p(i \<mapsto> m)) = insert m (ran (p(i := None)))"
proof -
  have "ran ((p(i := None))(i \<mapsto> m)) = insert m (ran (p(i := None)))"
    by (rule ran_map_upd) simp
  then show ?thesis by simp
qed

lemma index_key_image_remove:
  assumes "store_inv s" "primary s i = Some old"
  shows "index_key ` (ran (primary s) - {old}) = index_key ` ran (primary s) - {index_key old}"
proof -
  have "m = old" if "m \<in> ran (primary s)" "index_key m = index_key old" for m
  proof -
    from that(1) assms(1) have "primary s (ID m) = Some m" by (simp add: ran_stored)
    moreover have "ID m = ID old" using that(2) by (rule index_key_ID)
    moreover have "ID old = i" using assms by (rule stored_under_own_id)
    ultimately show ?thesis using assms(2) by simp
  qed
  then show ?thesis by auto
qed

lemma index_without:
  assumes "store_inv s" "primary s i = Some old"
  shows "set (remove1 (index_key old) (index s)) = index_key ` ran ((primary s)(i := None))"
    and "sorted (remove1 (index_key old) (index s))"
    and "distinct (remove1 (index_key old) (index s))"
proof -
  from assms(1) have inv: "sorted (index s)" "distinct (index s)"
    "set (index s) = index_key ` ran (primary s)"
    by (simp_all add: store_inv_def)
  from inv(2) have "set (remove1 (index_key old) (index s)) = set (index s) - {index_key old}"
    by simp
  also have "\<dots> = index_key ` (ran (primary s) - {old})"
    using assms by (simp add: inv(3) index_key_image_remove)
  also have "\<dots> = index_key ` ran ((primary s)(i := None))"
    using assms by (simp add: ran_remove_stored)
  finally show "set (remove1 (index_key old) (index s)) = index_key ` ran ((primary s)(i := None))" .
  show "sorted (remove1 (index_key old) (index s))" using inv(1) by (rule sorted_remove1)
  show "distinct (remove1 (index_key old) (index s))" using inv(2) by simp
qed

lemma key_not_indexed:
  assumes "store_inv s"
  shows "index_key m \<notin> index_key ` ran ((primary s)(ID m := None))"
proof
  assume "index_key m \<in> index_key ` ran ((primary s)(ID m := None))"
  then obtain m' where m': "m' \<in> ran ((primary s)(ID m := None))" "index_key m = index_key m'"
    by auto
  from m'(1) obtain j where j: "j \<noteq> ID m" "primary s j = Some m'"
    by (auto simp: ran_def split: if_splits)
  then have "ID m' = j" using assms by (simp add: stored_under_own_id)
  moreover have "ID m = ID m'" using m'(2) by (rule index_key_ID)
  ultimately show False using j(1) by simp
qed

lemma store_inv_put:
  assumes "store_inv s"
  shows "store_inv (put m s)"
proof -
  define ks where "ks = (case primary s (ID m) of None \<Rightarrow> index s
                         | Some old \<Rightarrow> remove1 (index_key old) (index s))"
  have ks: "set ks = index_key ` ran ((primary s)(ID m := None))" "sorted ks" "distinct ks"
  proof -
    show "set ks = index_key ` ran ((primary s)(ID m := None))"
    proof (cases "primary s (ID m)")
      case None
      then have "(primary s)(ID m := None) = primary s" by auto
      with None assms show ?thesis by (simp add: ks_def store_inv_def)
    next
      case (Some old)
      with assms show ?thesis by (simp add: ks_def index_without(1))
    qed
    show "sorted ks" using assms
      by (cases "primary s (ID m)") (simp_all add: ks_def store_inv_def index_without(2))
    show "distinct ks" using assms
      by (cases "primary s (ID m)") (simp_all add: ks_def store_inv_def index_without(3))
  qed
  have new: "index_key m \<notin> set ks" using assms by (simp add: ks(1) key_not_indexed)
  have put: "put m s = \<lparr>primary = (primary s)(ID m \<mapsto> m), index = insort (index_key m) ks\<rparr>"
    by (simp add: put_def ks_def)
  have "sorted (insort (index_key m) ks)" using ks(2) by (simp add: sorted_insort)
  moreover have "distinct (insort (index_key m) ks)" using ks(3) new by (simp add: distinct_insort)
  moreover have "set (insort (index_key m) ks) = index_key ` ran ((primary s)(ID m \<mapsto> m))"
    by (simp add: set_insort_key ks(1) ran_put)
  moreover have "\<forall>i m'. ((primary s)(ID m \<mapsto> m)) i = Some m' \<longrightarrow> ID m' = i"
    using stored_under_own_id[OF assms] by simp
  ultimately show ?thesis by (simp only: put store_inv_def MappingStore.simps simp_thms)
qed

lemma store_inv_delete:
  assumes "store_inv s"
  shows "store_inv (snd (delete i s))"
proof (cases "primary s i")
  case None
  with assms show ?thesis by (simp add: delete_def)
next
  case (Some old)
  have "\<forall>j m'. ((primary s)(i := None)) j = Some m' \<longrightarrow> ID m' = j"
    using stored_under_own_id[OF assms] by simp
  with Some assms show ?thesis
    by (simp add: delete_def store_inv_def[of "\<lparr>primary = _, index = _\<rparr>"] index_without)
qed


subsection \<open>Scans\<close>

lemma indexed_record:
  assumes "store_inv s" "k \<in> set (index s)"
  shows "\<exists>m. (case k of (o', d', r', i') \<Rightarrow> primary s i') = Some m \<and> index_key m = k"
proof -
  from assms have "k \<in> index_key ` ran (primary s)" by (simp add: store_inv_def)
  then obtain m where m: "m \<in> ran (primary s)" "k = index_key m" by auto
  from m(1) assms(1) have "primary s (ID m) = Some m" by (simp add: ran_stored)
  with m(2) show ?thesis by (auto simp: index_key_def)
qed

lemma map_filter_keys:
  assumes "\<forall>k \<in> set ks. \<exists>m. look k = Some m \<and> key m = k"
  shows "map key (List.map_filter look ks) = ks"
  using assms by (induction ks) (auto simp: List.map_filter_simps)

lemma map_filter_filter_keys:
  assumes "\<forall>k \<in> set ks. \<exists>m. look k = Some m \<and> key m = k"
  shows "List.map_filter look (filter P ks) = filter (\<lambda>m. P (key m)) (List.map_filter look ks)"
  using assms by (induction ks) (auto simp: List.map_filter_simps)

lemma index_key_scan_all:
  assumes "store_inv s"
  shows "map index_key (scan AllMappings s) = index s"
proof -
  have "\<forall>k \<in> set (index s). \<exists>m. (case k of (o', d', r', i') \<Rightarrow> primary s i') = Some m \<and> index_key m = k"
    using assms by (blast intro: indexed_record)
  then show ?thesis unfolding scan_def by (simp add: map_filter_keys)
qed

lemma scan_scope:
  assumes "store_inv s"
  shows "scan sc s = filter (\<lambda>m. in_scope sc (index_key m)) (scan AllMappings s)"
proof -
  have "\<forall>k \<in> set (index s). \<exists>m. (case k of (o', d', r', i') \<Rightarrow> primary s i') = Some m \<and> index_key m = k"
    using assms by (blast intro: indexed_record)
  then show ?thesis unfolding scan_def by (simp add: map_filter_filter_keys)
qed

lemma set_scan_all:
  assumes "store_inv s"
  shows "set (scan AllMappings s) = ran (primary s)"
proof -
  have inj: "inj_on index_key (ran (primary s))"
  proof (rule inj_onI)
    fix a b assume ab: "a \<in> ran (primary s)" "b \<in> ran (primary s)" "index_key a = index_key b"
    have a: "primary s (ID a) = Some a" using ab(1) assms by (simp add: ran_stored)
    have b: "primary s (ID b) = Some b" using ab(2) assms by (simp add: ran_stored)
    have "ID a = ID b" using ab(3) by (rule index_key_ID)
    with a have "primary s (ID b) = Some a" by (simp only:)
    with b show "a = b" by (simp only: option.inject)
  qed
  have sub: "set (scan AllMappings s) \<subseteq> ran (primary s)"
  proof
    fix m assume "m \<in> set (scan AllMappings s)"
    then obtain k where "(case k of (o', d', r', i') \<Rightarrow> primary s i') = Some m"
      by (auto simp: scan_def List.map_filter_def)
    then show "m \<in> ran (primary s)" by (auto simp: ran_def split: prod.splits)
  qed
  have "index_key ` set (scan AllMappings s) = index_key ` ran (primary s)"
    using assms index_key_scan_all[OF assms] by (metis set_map store_inv_def)
  with inj sub show ?thesis by (metis inj_on_image_eq_iff subset_refl)
qed

lemma distinct_scan_all:
  assumes "store_inv s"
  shows "distinct (scan AllMappings s)"
proof -
  have "distinct (map index_key (scan AllMappings s))"
    using assms by (simp add: index_key_scan_all store_inv_def)
  then show ?thesis by (simp add: distinct_map)
qed

lemma sorted_scan_all:
  assumes "store_inv s"
  shows "sorted (map index_key (scan AllMappings s))"
  using assms by (simp add: index_key_scan_all store_inv_def)

lemma scope_and_remaining:
  "(in_scope (choose_scope f) (index_key m) \<and> remaining_predicates (choose_scope f) f m)
     = filter_matches f m"
  by (cases "OrgID f"; cases "FilterDatabase f")
     (auto simp: choose_scope_def remaining_predicates_def filter_matches_def index_key_def)

lemma found_by_filter:
  assumes "store_inv s"
  shows "filter (remaining_predicates (choose_scope f) f) (scan (choose_scope f) s)
           = filter (filter_matches f) (scan AllMappings s)"
  by (subst scan_scope[OF assms]) (simp add: scope_and_remaining conj_commute)

lemma field_matches_iff: "field_matches x v \<longleftrightarrow> (\<forall>w. x = Some w \<longrightarrow> v = w)"
  by (cases x) auto

section \<open>The mapping service: results\<close>

lemma index_key_le_iff:
  "index_key a \<le> index_key b \<longleftrightarrow>
     OrganizationID a < OrganizationID b
     \<or> OrganizationID a = OrganizationID b
        \<and> (Database a < Database b
           \<or> Database a = Database b
              \<and> (RetentionPolicy a < RetentionPolicy b
                 \<or> RetentionPolicy a = RetentionPolicy b \<and> ID a \<le> ID b))"
  by (auto simp: index_key_def)

lemma store_inv_Service_Create:
  assumes "store_inv s"
  shows "store_inv (snd (snd (Service_Create deps m g s)))"
  using assms
  by (auto simp: Service_Create_def store_inv_put split: prod.splits sum.splits)

lemma store_inv_Populate:
  assumes "store_inv s"
  shows "store_inv (snd (snd (Populate deps ms g s)))"
  using assms
proof (induction ms arbitrary: g s)
  case Nil
  then show ?case by simp
next
  case (Cons m ms)
  from Cons.prems have "store_inv (snd (snd (Service_Create deps m g s)))"
    by (rule store_inv_Service_Create)
  then show ?case
    by (cases "Service_Create deps m g s") (auto split: sum.splits intro: Cons.IH)
qed

lemma store_inv_Service_Delete:
  assumes "store_inv s"
  shows "store_inv (snd (Service_Delete i s))"
  using assms by (simp add: Service_Delete_def store_inv_delete split: option.splits)

text \<open>The index is determined by the primary records.\<close>

lemma store_inv_index_unique:
  assumes "store_inv s" "store_inv s'" "primary s' = primary s"
  shows "s' = s"
proof -
  have "index s' = index s"
    using assms by (intro sorted_distinct_set_unique) (simp_all add: store_inv_def)
  with assms(3) show ?thesis by simp
qed

text \<open>
  Whatever scope \<open>FindMany\<close> chooses, it finds the mappings of the whole table that
  satisfy the filter, in index order.
\<close>

lemma Service_FindMany_all:
  assumes "store_inv s"
  shows "Service_FindMany f None s =
           (Inr (filter (filter_matches f) (scan AllMappings s),
                 int (length (filter (filter_matches f) (scan AllMappings s)))), s)"
  by (simp add: Service_FindMany_def Let_def found_by_filter[OF assms])

lemma filter_matches_no_filter: "filter_matches no_filter m"
  by (simp add: filter_matches_def no_filter_def)

lemma Service_FindMany_no_filter:
  assumes "store_inv s"
  shows "Service_FindMany no_filter None s =
           (Inr (scan AllMappings s, int (length (scan AllMappings s))), s)"
  by (simp add: Service_FindMany_all[OF assms] filter_matches_no_filter)

lemma two_mappings_found:
  "Service_FindMany no_filter None two_mappings_store
     = (Inr ([mapping100, mapping200], 2), two_mappings_store)"
  by (simp add: two_mappings_store_def Service_Create_def mock_collaborators_def
      mapping100_def mapping200_def empty_store_def put_def get_def index_key_def
      Service_FindMany_def no_filter_def scan_def choose_scope_def remaining_predicates_def
      List.map_filter_simps)

lemma one_mapping_found:
  "Service_FindMany no_filter None one_mapping_store
     = (Inr ([mapping100], 1), one_mapping_store)"
  by (simp add: one_mapping_store_def Service_Create_def mock_collaborators_def
      mapping100_def empty_store_def put_def get_def index_key_def
      Service_FindMany_def no_filter_def scan_def choose_scope_def remaining_predicates_def
      List.map_filter_simps)

subsection \<open>Delete of an absent id\<close>



lemma store_inv_ordered_mappings_store: "store_inv ordered_mappings_store"
  unfolding ordered_mappings_store_def by (intro store_inv_Populate store_inv_empty_store)



subsection \<open>Create of an id that is present\<close>

lemma store_inv_one_mapping_store: "store_inv one_mapping_store"
  unfolding one_mapping_store_def by (intro store_inv_Populate store_inv_empty_store)

lemma one_mapping_present: "get 100 one_mapping_store = Some mapping100"
  by (simp add: one_mapping_store_def Service_Create_def mock_collaborators_def
      mapping100_def empty_store_def put_def get_def)

text \<open>
  C4. For every store state that holds a mapping under an id \<open>X\<close>, \<open>Create\<close> of any
  mapping whose id equals \<open>X\<close> fails with the conflict error
  \<^verbatim>\<open>ErrDBRPAlreadyExist\<close> and returns the store as it was: \<open>FindByID X\<close> still returns
  the original mapping, with its original fields, and \<open>FindMany\<close> with the empty filter
  returns what it returned before (in a well-formed store, exactly the mappings stored
  before), so the call is never an update.
\<close>

theorem Create_duplicate_id_AlreadyExists:
  assumes "get (ID m) s = Some orig"
  shows "Service_Create deps m g s = (Inl (ErrDBRPAlreadyExist None), g, s)
         \<and> Code (ErrDBRPAlreadyExist None) = EConflict
         \<and> Service_FindByID (ID m) (snd (snd (Service_Create deps m g s))) = (Inr orig, s)
         \<and> Service_FindMany no_filter None (snd (snd (Service_Create deps m g s)))
             = Service_FindMany no_filter None s
         \<and> (store_inv s \<longrightarrow>
              (\<exists>xs. Service_FindMany no_filter None (snd (snd (Service_Create deps m g s)))
                       = (Inr (xs, int (length xs)), s)
                 \<and> set xs = ran (primary s)))"
proof -
  have c: "Service_Create deps m g s = (Inl (ErrDBRPAlreadyExist None), g, s)"
    using assms by (simp add: Service_Create_def)
  have "\<exists>xs. Service_FindMany no_filter None s = (Inr (xs, int (length xs)), s)
           \<and> set xs = ran (primary s)" if "store_inv s"
    using that by (intro exI[of _ "scan AllMappings s"])
      (simp add: Service_FindMany_no_filter set_scan_all)
  with c assms show ?thesis by (simp add: Service_FindByID_def ErrDBRPAlreadyExist_def)
qed

text \<open>
  The test case "error on create existing dbrpMapping with same ID": the mapping 100 is
  stored, the mapping created has the same id and another default flag. A mapping with
  the same id and no database is refused in the same way.
\<close>

theorem Create_duplicate_id_AlreadyExists_witness:
  "get 100 one_mapping_store = Some mapping100
   \<and> store_inv one_mapping_store
   \<and> Service_Create mock_collaborators (mapping100\<lparr>Default := True\<rparr>) 0 one_mapping_store
       = (Inl (ErrDBRPAlreadyExist None), 0, one_mapping_store)
   \<and> Service_Create mock_collaborators (mapping100\<lparr>Database := []\<rparr>) 0 one_mapping_store
       = (Inl (ErrDBRPAlreadyExist None), 0, one_mapping_store)
   \<and> Service_FindByID 100 one_mapping_store = (Inr mapping100, one_mapping_store)
   \<and> Service_FindMany no_filter None one_mapping_store
       = (Inr ([mapping100], 1), one_mapping_store)"
proof -
  have a: "get (ID (mapping100\<lparr>Default := True\<rparr>)) one_mapping_store = Some mapping100"
    and b: "get (ID (mapping100\<lparr>Database := []\<rparr>)) one_mapping_store = Some mapping100"
    using one_mapping_present by (simp_all add: mapping100_def)
  have i: "ID (mapping100\<lparr>Default := True\<rparr>) = 100" by (simp add: mapping100_def)
  show ?thesis
    using Create_duplicate_id_AlreadyExists[OF a, of mock_collaborators 0]
      Create_duplicate_id_AlreadyExists[OF b, of mock_collaborators 0]
      one_mapping_present store_inv_one_mapping_store one_mapping_found
    by (simp add: i Service_FindByID_def)
qed

subsection \<open>Create, then FindByID\<close>








subsection \<open>FindMany\<close>

text \<open>
  C6. For every (well-formed) store state and every filter, \<open>FindMany\<close> without
  pagination returns, each once, exactly the stored mappings that satisfy the predicate of
  every field that is set in the filter (id, org_id, bucket_id, database, retention_policy,
  default); a field that is not set constrains nothing. The count it returns is the length
  of the result.
\<close>

theorem FindMany_conjunction_of_set_fields:
  assumes "store_inv s"
  shows "\<exists>xs. Service_FindMany f None s = (Inr (xs, int (length xs)), s)
           \<and> distinct xs
           \<and> set xs =
               {m \<in> ran (primary s).
                  (\<forall>v. FilterID f = Some v \<longrightarrow> ID m = v)
                  \<and> (\<forall>v. OrgID f = Some v \<longrightarrow> OrganizationID m = v)
                  \<and> (\<forall>v. FilterBucketID f = Some v \<longrightarrow> BucketID m = v)
                  \<and> (\<forall>v. FilterDatabase f = Some v \<longrightarrow> Database m = v)
                  \<and> (\<forall>v. FilterRetentionPolicy f = Some v \<longrightarrow> RetentionPolicy m = v)
                  \<and> (\<forall>v. FilterDefault f = Some v \<longrightarrow> Default m = v)}"
proof -
  let ?xs = "filter (filter_matches f) (scan AllMappings s)"
  have "Service_FindMany f None s = (Inr (?xs, int (length ?xs)), s)"
    using assms by (rule Service_FindMany_all)
  moreover have "distinct ?xs" using distinct_scan_all[OF assms] by simp
  moreover have "set ?xs = {m \<in> ran (primary s). filter_matches f m}"
    by (simp add: set_scan_all[OF assms])
  ultimately show ?thesis
    by (intro exI[of _ ?xs]) (simp add: filter_matches_def field_matches_iff)
qed

text \<open>
  The test case "mixed": of four stored mappings, the filter on retention policy, default
  flag and organization finds the two that satisfy all three.
\<close>

theorem FindMany_conjunction_of_set_fields_witness:
  "store_inv mixed_store
   \<and> Service_FindMany mixed_filter None mixed_store = (Inr ([mixed100, mixed200], 2), mixed_store)
   \<and> ran (primary mixed_store) = {mixed100, mixed200, mixed300, mixed400}"
proof -
  have inv: "store_inv mixed_store"
    unfolding mixed_store_def by (intro store_inv_Populate store_inv_empty_store)
  have "Service_FindMany mixed_filter None mixed_store
          = (Inr ([mixed100, mixed200], 2), mixed_store)"
    by (simp add: mixed_store_def mixed_filter_def Service_Create_def mock_collaborators_def
        mixed100_def mixed200_def mixed300_def mixed400_def empty_store_def put_def get_def
        index_key_def Service_FindMany_def no_filter_def scan_def choose_scope_def
        remaining_predicates_def List.map_filter_simps)
  moreover have "ran (primary mixed_store) = {mixed100, mixed200, mixed300, mixed400}"
    by (simp add: mixed_store_def Service_Create_def mock_collaborators_def
        mixed100_def mixed200_def mixed300_def mixed400_def empty_store_def put_def get_def
        index_key_def insert_commute)
  ultimately show ?thesis
    using inv FindMany_conjunction_of_set_fields[OF inv, of mixed_filter] by simp
qed

text \<open>
  C7. For every (well-formed) store state, \<open>FindMany\<close> with the empty filter succeeds
  and returns all stored mappings, each once, in ascending order of
  \<open>(organization_id, database, retention_policy, id)\<close>. The call returns the store as it
  was, so a repeated call returns the same, and the result depends on the stored mappings
  alone: any store holding the same primary records gives the same sequence.
\<close>

theorem FindMany_empty_filter_ascending:
  assumes "store_inv s"
  shows "\<exists>xs. Service_FindMany no_filter None s = (Inr (xs, int (length xs)), s)
           \<and> set xs = ran (primary s) \<and> distinct xs
           \<and> sorted (map index_key xs)
           \<and> Service_FindMany no_filter None (snd (Service_FindMany no_filter None s))
               = Service_FindMany no_filter None s
           \<and> (\<forall>s'. store_inv s' \<and> primary s' = primary s \<longrightarrow>
                 fst (Service_FindMany no_filter None s') = Inr (xs, int (length xs)))"
proof -
  let ?xs = "scan AllMappings s"
  have r: "Service_FindMany no_filter None s = (Inr (?xs, int (length ?xs)), s)"
    using assms by (rule Service_FindMany_no_filter)
  have "fst (Service_FindMany no_filter None s') = Inr (?xs, int (length ?xs))"
    if "store_inv s' \<and> primary s' = primary s" for s'
  proof -
    from that assms have "s' = s" by (simp add: store_inv_index_unique)
    with r show ?thesis by simp
  qed
  with r show ?thesis
    using set_scan_all[OF assms] distinct_scan_all[OF assms] sorted_scan_all[OF assms]
    by (intro exI[of _ ?xs]) simp
qed

lemma same_primary_records: "primary ordered_mappings_store = primary two_mappings_store"
  by (simp add: ordered_mappings_store_def two_mappings_store_def
      Service_Create_def mock_collaborators_def mapping100_def mapping200_def empty_store_def
      put_def get_def fun_upd_twist)

text \<open>
  Two mappings created in descending order of their keys are found in ascending order, and
  so they are in the store that was given them in the other order.
\<close>

theorem FindMany_empty_filter_ascending_witness:
  "store_inv two_mappings_store
   \<and> Service_FindMany no_filter None two_mappings_store
       = (Inr ([mapping100, mapping200], 2), two_mappings_store)
   \<and> index_key mapping100 < index_key mapping200
   \<and> store_inv ordered_mappings_store
   \<and> primary ordered_mappings_store = primary two_mappings_store
   \<and> fst (Service_FindMany no_filter None ordered_mappings_store)
       = Inr ([mapping100, mapping200], 2)"
proof -
  have inv: "store_inv two_mappings_store"
    unfolding two_mappings_store_def by (intro store_inv_Populate store_inv_empty_store)
  have inv': "store_inv ordered_mappings_store"
    by (rule store_inv_ordered_mappings_store)
  have "index_key mapping100 < index_key mapping200"
    by (simp add: index_key_def mapping100_def mapping200_def)
  with two_mappings_found same_primary_records inv' show ?thesis
    using inv FindMany_empty_filter_ascending[OF inv] by auto
qed

end
